theory Spec2Isabelle
  imports Complex_Main
begin

section \<open>Values\<close>

text \<open>
  The orchestrator handles the values that \<^verbatim>\<open>json.load\<close> produces and that the
  agents return: \<^verbatim>\<open>None\<close>, booleans, integers, floats, strings, lists and
  dictionaries. A dictionary is an association list in insertion order; a lookup takes
  the first entry of a key. No arithmetic is done on a float by the code modelled here,
  so its payload is only carried along.
\<close>

datatype pyval =
    PNone
  | PBool bool
  | PInt int
  | PFloat real
  | PStr string
  | PList "pyval list"
  | PDict "(string \<times> pyval) list"

type_synonym dict = "(string \<times> pyval) list"

text \<open>
  The exceptions of the modelled code: \<^verbatim>\<open>IndexError\<close> (\<^verbatim>\<open>steps[0]\<close> on an
  empty list), \<^verbatim>\<open>AttributeError\<close> (\<^verbatim>\<open>.get\<close> on a value that is not a
  dictionary), \<^verbatim>\<open>ValueError\<close> with its message (an unknown agent), whatever an
  agent or the tool loader raises, as an opaque \<open>AgentError\<close> with its text, and the
  error with which the graph package refuses a node id that is already present, named
  \<open>DuplicateStepIdError\<close> as in the specification and carrying the id.
\<close>

datatype error =
    IndexError
  | AttributeError
  | ValueError string
  | AgentError string
  | DuplicateStepIdError string

text \<open>\<^verbatim>\<open>d.get(key, default)\<close>\<close>

definition dict_get :: "dict \<Rightarrow> string \<Rightarrow> pyval \<Rightarrow> pyval" where
  "dict_get d key dflt = (case map_of d key of Some v \<Rightarrow> v | None \<Rightarrow> dflt)"

text \<open>
  \<^verbatim>\<open>d[key] = v\<close>: an existing key keeps its place and takes the new value, a new key
  goes to the end.
\<close>

fun dict_set :: "dict \<Rightarrow> string \<Rightarrow> pyval \<Rightarrow> dict" where
  "dict_set [] key v = [(key, v)]"
| "dict_set ((k, x) # d) key v = (if k = key then (k, v) # d else (k, x) # dict_set d key v)"

section \<open>The reference resolver\<close>

subsection \<open>The pattern and the split\<close>

text \<open>
  \<^verbatim>\<open>re.search(r'\{\{([^}]+)\}\}', value)\<close>. At one position the pattern matches when
  the text starts with two opening braces, then has a non-empty run of characters other
  than a closing brace, then two closing braces. The run is greedy and no shorter run
  can match, since the character after a shorter run is not a closing brace. The search
  takes the leftmost position that matches and the group is the run. All characters of
  the pattern are ASCII, so matching bytes and matching code points agree.
\<close>

fun match_here :: "string \<Rightarrow> string option" where
  "match_here (a # b # rest) =
     (if a = CHR ''{'' \<and> b = CHR ''{'' then
        (let run = takeWhile (\<lambda>c. c \<noteq> CHR ''}'') rest;
             after = dropWhile (\<lambda>c. c \<noteq> CHR ''}'') rest
         in if run \<noteq> [] \<and> take 2 after = ''}}'' then Some run else None)
      else None)"
| "match_here _ = None"

fun re_search :: "string \<Rightarrow> string option" where
  "re_search [] = None"
| "re_search (c # cs) =
     (case match_here (c # cs) of Some g \<Rightarrow> Some g | None \<Rightarrow> re_search cs)"

text \<open>\<^verbatim>\<open>ref_path.split('.')\<close>: every dot separates, and the result is never empty.\<close>

fun split_dot :: "string \<Rightarrow> string list" where
  "split_dot [] = [[]]"
| "split_dot (c # cs) =
     (if c = CHR ''.'' then [] # split_dot cs
      else (c # hd (split_dot cs)) # tl (split_dot cs))"

subsection \<open>The two walks\<close>

text \<open>
  \<^verbatim>\<open>for part in parts[1:]: result = result.get(part, {})\<close>: the walk through the
  static configuration calls \<^verbatim>\<open>.get\<close> on whatever the last step gave, and a value
  that is not a dictionary has no such method.
\<close>

fun config_walk :: "pyval \<Rightarrow> string list \<Rightarrow> error + pyval" where
  "config_walk result [] = Inr result"
| "config_walk result (part # parts) =
     (case result of
        PDict d \<Rightarrow> config_walk (dict_get d part (PDict [])) parts
      | _ \<Rightarrow> Inl AttributeError)"

text \<open>
  \<^verbatim>\<open>for part in parts[2:]: if isinstance(result, dict): result = result.get(part, {})\<close>:
  the walk through a step's output skips a segment when the current value is not a
  dictionary.
\<close>

fun step_walk :: "pyval \<Rightarrow> string list \<Rightarrow> pyval" where
  "step_walk result [] = result"
| "step_walk result (part # parts) =
     (case result of
        PDict d \<Rightarrow> step_walk (dict_get d part (PDict [])) parts
      | _ \<Rightarrow> step_walk result parts)"

subsection \<open>\<^verbatim>\<open>resolve_value\<close>\<close>

text \<open>
  The arguments are \<^verbatim>\<open>step_outputs\<close>, \<^verbatim>\<open>workflow_config\<close> (the static
  configuration) and the value. The comprehensions over a dictionary and over a list
  stop at the first element whose resolution raises.
\<close>

fun resolve_value :: "dict \<Rightarrow> dict \<Rightarrow> pyval \<Rightarrow> error + pyval"
  and resolve_items :: "dict \<Rightarrow> dict \<Rightarrow> (string \<times> pyval) list \<Rightarrow> error + (string \<times> pyval) list"
  and resolve_elems :: "dict \<Rightarrow> dict \<Rightarrow> pyval list \<Rightarrow> error + pyval list"
where
  "resolve_value step_outputs workflow_config (PStr value) =
     (case re_search value of
        Some ref_path \<Rightarrow>
          (let parts = split_dot ref_path in
           if hd parts = ''config'' then config_walk (PDict workflow_config) (tl parts)
           else if 3 \<le> length parts then
             (case map_of step_outputs (hd parts) of
                Some result \<Rightarrow> Inr (step_walk result (drop 2 parts))
              | None \<Rightarrow> Inr (PStr value))
           else Inr (PStr value))
      | None \<Rightarrow> Inr (PStr value))"
| "resolve_value step_outputs workflow_config (PDict items) =
     (case resolve_items step_outputs workflow_config items of
        Inl e \<Rightarrow> Inl e
      | Inr items' \<Rightarrow> Inr (PDict items'))"
| "resolve_value step_outputs workflow_config (PList elems) =
     (case resolve_elems step_outputs workflow_config elems of
        Inl e \<Rightarrow> Inl e
      | Inr elems' \<Rightarrow> Inr (PList elems'))"
| "resolve_value step_outputs workflow_config PNone = Inr PNone"
| "resolve_value step_outputs workflow_config (PBool b) = Inr (PBool b)"
| "resolve_value step_outputs workflow_config (PInt i) = Inr (PInt i)"
| "resolve_value step_outputs workflow_config (PFloat x) = Inr (PFloat x)"
| "resolve_items step_outputs workflow_config [] = Inr []"
| "resolve_items step_outputs workflow_config (kv # items) =
     (case resolve_value step_outputs workflow_config (snd kv) of
        Inl e \<Rightarrow> Inl e
      | Inr v' \<Rightarrow>
          (case resolve_items step_outputs workflow_config items of
             Inl e \<Rightarrow> Inl e
           | Inr items' \<Rightarrow> Inr ((fst kv, v') # items')))"
| "resolve_elems step_outputs workflow_config [] = Inr []"
| "resolve_elems step_outputs workflow_config (item # elems) =
     (case resolve_value step_outputs workflow_config item of
        Inl e \<Rightarrow> Inl e
      | Inr v' \<Rightarrow>
          (case resolve_elems step_outputs workflow_config elems of
             Inl e \<Rightarrow> Inl e
           | Inr elems' \<Rightarrow> Inr (v' # elems')))"

text \<open>\<^verbatim>\<open>_resolve_inputs(input_config, step_outputs, workflow_config)\<close>\<close>

definition resolve_inputs :: "dict \<Rightarrow> dict \<Rightarrow> dict \<Rightarrow> error + pyval" where
  "resolve_inputs input_config step_outputs workflow_config =
     resolve_value step_outputs workflow_config (PDict input_config)"

section \<open>Stored values and stored objects\<close>

text \<open>
  The value stored under a path of keys in a nest of dictionaries, or nothing where a
  key is missing or the value reached is not a dictionary. This is not code of the
  resolver: it says what a field of a recorded output is, so that the result of a walk
  can be stated without the walk.
\<close>

fun stored_at :: "pyval \<Rightarrow> string list \<Rightarrow> pyval option" where
  "stored_at v [] = Some v"
| "stored_at v (key # keys) =
     (case v of
        PDict d \<Rightarrow> (case map_of d key of Some v' \<Rightarrow> stored_at v' keys | None \<Rightarrow> None)
      | _ \<Rightarrow> None)"

text \<open>
  A Python value is a reference to an object, and
  \<^verbatim>\<open>result = step_outputs[step_id]\<close> and \<^verbatim>\<open>result = result.get(part, {})\<close> move
  references, not values. To say which object the walk returns, the same loop is written
  on references. A heap gives the object at each address; a list or dictionary object
  holds the addresses of its members. A reference is the address of an object of the
  heap, or \<open>Fresh\<close>: the new empty dictionary that \<^verbatim>\<open>{}\<close> makes when the key is
  missing, which is at no address of the heap.
\<close>

type_synonym addr = nat

datatype obj =
    ONone
  | OBool bool
  | OInt int
  | OFloat real
  | OStr string
  | OList "addr list"
  | ODict "(string \<times> addr) list"

type_synonym heap = "addr \<Rightarrow> obj"

datatype ref = Stored addr | Fresh

text \<open>
  \<^verbatim>\<open>for part in parts[2:]: if isinstance(result, dict): result = result.get(part, {})\<close>
  on references: the member stored under the key, the new empty dictionary when the key
  is missing (a dictionary without keys, so every later segment is missing too), and
  the same reference when the object is not a dictionary.
\<close>

fun step_walk_ref :: "heap \<Rightarrow> ref \<Rightarrow> string list \<Rightarrow> ref" where
  "step_walk_ref h result [] = result"
| "step_walk_ref h Fresh (part # parts) = step_walk_ref h Fresh parts"
| "step_walk_ref h (Stored a) (part # parts) =
     (case h a of
        ODict d \<Rightarrow>
          (case map_of d part of
             Some a' \<Rightarrow> step_walk_ref h (Stored a') parts
           | None \<Rightarrow> step_walk_ref h Fresh parts)
      | _ \<Rightarrow> step_walk_ref h (Stored a) parts)"

text \<open>
  The address stored under a path of keys, the counterpart of \<open>stored_at\<close> on the heap.
\<close>

fun addr_at :: "heap \<Rightarrow> addr \<Rightarrow> string list \<Rightarrow> addr option" where
  "addr_at h a [] = Some a"
| "addr_at h a (key # keys) =
     (case h a of
        ODict d \<Rightarrow> (case map_of d key of Some a' \<Rightarrow> addr_at h a' keys | None \<Rightarrow> None)
      | _ \<Rightarrow> None)"

text \<open>
  The object at an address, with all it refers to, is a given value: this ties the heap
  to the values that \<^verbatim>\<open>resolve_value\<close> is written on.
\<close>

fun holds :: "heap \<Rightarrow> addr \<Rightarrow> pyval \<Rightarrow> bool"
  and holds_elems :: "heap \<Rightarrow> addr list \<Rightarrow> pyval list \<Rightarrow> bool"
  and holds_items :: "heap \<Rightarrow> (string \<times> addr) list \<Rightarrow> (string \<times> pyval) list \<Rightarrow> bool"
where
  "holds h a PNone = (h a = ONone)"
| "holds h a (PBool b) = (h a = OBool b)"
| "holds h a (PInt i) = (h a = OInt i)"
| "holds h a (PFloat x) = (h a = OFloat x)"
| "holds h a (PStr s) = (h a = OStr s)"
| "holds h a (PList elems) = (case h a of OList as \<Rightarrow> holds_elems h as elems | _ \<Rightarrow> False)"
| "holds h a (PDict items) = (case h a of ODict d \<Rightarrow> holds_items h d items | _ \<Rightarrow> False)"
| "holds_elems h [] [] = True"
| "holds_elems h (a # as) (v # elems) = (holds h a v \<and> holds_elems h as elems)"
| "holds_elems h [] (v # elems) = False"
| "holds_elems h (a # as) [] = False"
| "holds_items h [] [] = True"
| "holds_items h (ka # d) (kv # items) =
     (fst ka = fst kv \<and> holds h (snd ka) (snd kv) \<and> holds_items h d items)"
| "holds_items h [] (kv # items) = False"
| "holds_items h (ka # d) [] = False"

section \<open>The workflow specification\<close>

text \<open>
  A step and a workflow as \<^verbatim>\<open>validate_workflow_json\<close> accepts them
  (\<^verbatim>\<open>WorkflowStep\<close>, \<^verbatim>\<open>WorkflowConfig\<close>): every field is present, \<^verbatim>\<open>steps\<close>
  is any list, also an empty one or one that repeats an id. The field \<^verbatim>\<open>id\<close> is
  \<open>step_id\<close> here.
\<close>

record step =
  step_id :: string
  agent :: string
  inputs :: dict
  instructions :: string
  tools :: "pyval list"
  output_schema :: dict

record workflow_config =
  workflow_name :: string
  description :: string
  config :: dict
  steps :: "step list"

section \<open>The graph builder\<close>

text \<open>
  Modelled from the spec: \<^verbatim>\<open>StateGraph\<close> and \<^verbatim>\<open>END\<close> come from the langgraph
  package, which is imported by \<^verbatim>\<open>langgraph_builder.py\<close> and is not part of the
  sources. Following section 4.4, a graph has one node per step, keyed by its id (the
  node carries the step its node function closes over), directed edges whose target is
  a node or the terminal marker, and an entry point; adding a node under an id that is
  already present fails with \<open>DuplicateStepIdError\<close>, and compiling leaves the graph as
  it is.
\<close>

datatype target = Node string | END

record state_graph =
  nodes :: "(string \<times> step) list"
  edges :: "(string \<times> target) list"
  entry_point :: "string option"

definition StateGraph :: state_graph where
  "StateGraph = \<lparr>nodes = [], edges = [], entry_point = None\<rparr>"

definition add_node :: "state_graph \<Rightarrow> string \<Rightarrow> step \<Rightarrow> error + state_graph" where
  "add_node g name s =
     (if name \<in> set (map fst (nodes g))
      then Inl (DuplicateStepIdError name)
      else Inr (g\<lparr>nodes := nodes g @ [(name, s)]\<rparr>))"

definition set_entry_point :: "state_graph \<Rightarrow> string \<Rightarrow> state_graph" where
  "set_entry_point g name = g\<lparr>entry_point := Some name\<rparr>"

definition add_edge :: "state_graph \<Rightarrow> string \<Rightarrow> target \<Rightarrow> state_graph" where
  "add_edge g a b = g\<lparr>edges := edges g @ [(a, b)]\<rparr>"

definition compile :: "state_graph \<Rightarrow> error + state_graph" where
  "compile g = Inr g"

text \<open>
  \<^verbatim>\<open>for step in self.workflow_config['steps']: workflow.add_node(step_id, node_func)\<close>
\<close>

fun add_nodes :: "state_graph \<Rightarrow> step list \<Rightarrow> error + state_graph" where
  "add_nodes g [] = Inr g"
| "add_nodes g (s # ss) =
     (case add_node g (step_id s) s of
        Inl e \<Rightarrow> Inl e
      | Inr g' \<Rightarrow> add_nodes g' ss)"

text \<open>
  \<^verbatim>\<open>build_graph\<close>: the nodes, then \<^verbatim>\<open>steps[0]\<close> (an \<^verbatim>\<open>IndexError\<close> on an empty
  list) as entry point, then the edges
  \<^verbatim>\<open>for i in range(len(steps) - 1): add_edge(steps[i]['id'], steps[i + 1]['id'])\<close>,
  then the edge from \<^verbatim>\<open>steps[-1]\<close> to \<^verbatim>\<open>END\<close>, then \<^verbatim>\<open>compile\<close>.
\<close>

definition build_graph :: "workflow_config \<Rightarrow> error + state_graph" where
  "build_graph wfl =
     (case add_nodes StateGraph (steps wfl) of
        Inl e \<Rightarrow> Inl e
      | Inr g1 \<Rightarrow>
          (case steps wfl of
             [] \<Rightarrow> Inl IndexError
           | s0 # _ \<Rightarrow>
               (let g2 = set_entry_point g1 (step_id s0);
                    g3 = fold (\<lambda>i g. add_edge g (step_id (steps wfl ! i))
                                       (Node (step_id (steps wfl ! (i + 1)))))
                           [0 ..< length (steps wfl) - 1] g2;
                    g4 = add_edge g3 (step_id (last (steps wfl))) END
                in compile g4)))"

section \<open>Agents\<close>

text \<open>
  \<^verbatim>\<open>BaseAgent.validate_output\<close>, with \<^verbatim>\<open>self.output_schema\<close> as first
  argument: the keys of the schema in order; at the first one that the output lacks, a
  warning is printed and the result is \<^verbatim>\<open>False\<close>. The result is paired with the
  lines printed (the warning sign that starts the line in the source is left out).
\<close>

fun validate_output :: "dict \<Rightarrow> dict \<Rightarrow> bool \<times> string list" where
  "validate_output [] output = (True, [])"
| "validate_output (kv # schema) output =
     (case map_of output (fst kv) of
        None \<Rightarrow> (False, [''Warning: Missing expected output key: '' @ fst kv])
      | Some _ \<Rightarrow> validate_output schema output)"

text \<open>\<^verbatim>\<open>AGENT_REGISTRY\<close>: the class names that have an agent.\<close>

definition AGENT_REGISTRY :: "string list" where
  "AGENT_REGISTRY =
     [''ProspectSearchAgent'', ''DataEnrichmentAgent'', ''ScoringAgent'',
      ''OutreachContentAgent'', ''OutreachExecutorAgent'', ''ResponseTrackerAgent'',
      ''FeedbackTrainerAgent'']"

text \<open>
  What lies outside the orchestrator is a parameter: \<open>load_tools_config\<close> reads the
  process environment and gives the tool configuration of a step or raises;
  \<open>agent_logic\<close> is the body of an agent's \<^verbatim>\<open>execute\<close> up to the point where its
  \<^verbatim>\<open>output\<close> dictionary is built, for the class name, the step, the tool configuration
  and the resolved inputs, and it gives that dictionary or raises.
\<close>

record externals =
  load_tools_config :: "step \<Rightarrow> error + dict"
  agent_logic :: "string \<Rightarrow> step \<Rightarrow> dict \<Rightarrow> pyval \<Rightarrow> error + dict"

text \<open>
  \<^verbatim>\<open>agent.execute(inputs)\<close>: each of the seven agents ends with
  \<^verbatim>\<open>self.validate_output(output); return output\<close>, where the schema is
  \<^verbatim>\<open>step_config.get('output_schema', {})\<close> and the result of the validation is
  dropped. The value is the error raised or the output returned, with the lines printed
  by the validation.
\<close>

definition agent_execute ::
  "externals \<Rightarrow> step \<Rightarrow> dict \<Rightarrow> pyval \<Rightarrow> (error + dict) \<times> string list" where
  "agent_execute ext s tools_config ins =
     (case agent_logic ext (agent s) s tools_config ins of
        Inl e \<Rightarrow> (Inl e, [])
      | Inr output \<Rightarrow> (Inr output, snd (validate_output (output_schema s) output)))"

section \<open>The orchestrator\<close>

text \<open>
  \<^verbatim>\<open>WorkflowState\<close>, and with it the warnings printed so far, so that a run shows
  them.
\<close>

record workflow_state =
  messages :: "string list"
  workflow_data :: workflow_config
  current_step :: string
  step_outputs :: dict
  printed :: "string list"

text \<open>
  \<^verbatim>\<open>node_function\<close> of a step. The state is changed in place, so a raise leaves
  the state as it is at that point: the error is paired with it. Nothing is raised
  between the two assignments and the \<^verbatim>\<open>return\<close>, since the output is a dictionary.
\<close>

definition node_function ::
  "externals \<Rightarrow> workflow_config \<Rightarrow> step \<Rightarrow> workflow_state \<Rightarrow> (error \<times> workflow_state) + workflow_state"
where
  "node_function ext wfl s st =
     (case load_tools_config ext s of
        Inl e \<Rightarrow> Inl (e, st)
      | Inr tools_config \<Rightarrow>
          if agent s \<notin> set AGENT_REGISTRY
          then Inl (ValueError (''Unknown agent: '' @ agent s), st)
          else
            (case resolve_inputs (inputs s) (step_outputs st) (config wfl) of
               Inl e \<Rightarrow> Inl (e, st)
             | Inr ins \<Rightarrow>
                 (case agent_execute ext s tools_config ins of
                    (Inl e, out) \<Rightarrow> Inl (e, st\<lparr>printed := printed st @ out\<rparr>)
                  | (Inr output, out) \<Rightarrow>
                      Inr (st\<lparr>step_outputs := dict_set (step_outputs st) (step_id s) (PDict output),
                              current_step := step_id s,
                              printed := printed st @ out\<rparr>))))"

text \<open>
  Modelled from the spec: \<^verbatim>\<open>graph.invoke\<close> is the langgraph package's. Following
  section 4.5, the compiled graph is walked from its entry point along its edges until
  the terminal marker, which for the chain that \<^verbatim>\<open>build_graph\<close> makes is a visit of
  the nodes in their declared order; a node function that raises ends the walk.
\<close>

fun invoke_nodes ::
  "externals \<Rightarrow> workflow_config \<Rightarrow> step list \<Rightarrow> workflow_state \<Rightarrow> (error \<times> workflow_state) + workflow_state"
where
  "invoke_nodes ext wfl [] st = Inr st"
| "invoke_nodes ext wfl (s # ss) st =
     (case node_function ext wfl s st of
        Inl e \<Rightarrow> Inl e
      | Inr st' \<Rightarrow> invoke_nodes ext wfl ss st')"

definition invoke ::
  "externals \<Rightarrow> workflow_config \<Rightarrow> state_graph \<Rightarrow> workflow_state \<Rightarrow> (error \<times> workflow_state) + workflow_state"
where
  "invoke ext wfl g st = invoke_nodes ext wfl (map snd (nodes g)) st"

text \<open>
  \<^verbatim>\<open>execute\<close>: a fresh state, the walk, and the outputs of the final state; an
  error is logged and raised again, here with the state the run had reached.
\<close>

definition initial_state :: "workflow_config \<Rightarrow> workflow_state" where
  "initial_state wfl =
     \<lparr>messages = [''Start prospect-to-lead workflow''], workflow_data = wfl,
      current_step = [], step_outputs = [], printed = []\<rparr>"

definition execute ::
  "externals \<Rightarrow> workflow_config \<Rightarrow> state_graph \<Rightarrow> (error \<times> workflow_state) + dict" where
  "execute ext wfl g =
     (case invoke ext wfl g (initial_state wfl) of
        Inl e \<Rightarrow> Inl e
      | Inr final_state \<Rightarrow> Inr (step_outputs final_state))"

text \<open>
  \<^verbatim>\<open>main\<close> after the workflow is loaded: \<^verbatim>\<open>build_graph\<close>, then \<^verbatim>\<open>execute\<close>. A
  failure of the build comes with no state, since no run has begun.
\<close>

definition build_and_execute ::
  "externals \<Rightarrow> workflow_config \<Rightarrow> (error \<times> workflow_state option) + dict" where
  "build_and_execute ext wfl =
     (case build_graph wfl of
        Inl e \<Rightarrow> Inl (e, None)
      | Inr g \<Rightarrow>
          (case execute ext wfl g of
             Inl (e, st) \<Rightarrow> Inl (e, Some st)
           | Inr outputs \<Rightarrow> Inr outputs))"

section \<open>A small workflow to run\<close>

text \<open>
  Steps of the registered class \<^verbatim>\<open>ScoringAgent\<close>, a tool loader that gives no
  tools, and an agent logic that returns its inputs under the key \<^verbatim>\<open>y\<close>, except
  in the step \<^verbatim>\<open>s2\<close>, where it raises.
\<close>

definition demo_step :: "string \<Rightarrow> dict \<Rightarrow> dict \<Rightarrow> step" where
  "demo_step name ins schema =
     \<lparr>step_id = name, agent = ''ScoringAgent'', inputs = ins, instructions = [],
      tools = [], output_schema = schema\<rparr>"

definition demo_externals :: externals where
  "demo_externals =
     \<lparr>load_tools_config = (\<lambda>s. Inr []),
      agent_logic = (\<lambda>name s tools_config ins.
         if step_id s = ''s2'' then Inl (AgentError ''s2 failed'') else Inr [(''y'', ins)])\<rparr>"

definition demo_workflow :: "step list \<Rightarrow> workflow_config" where
  "demo_workflow ss = \<lparr>workflow_name = ''demo'', description = [], config = [], steps = ss\<rparr>"

definition three_steps :: "step list" where
  "three_steps =
     [demo_step ''s1'' [(''x'', PInt 1)] [(''y'', PDict []), (''z'', PDict [])],
      demo_step ''s2'' [(''v'', PStr ''{{s1.output.y}}'')] [],
      demo_step ''s3'' [] []]"

text \<open>
  A recorded output, and a heap whose address 0 holds it: the list is at address 1, the
  inner dictionary at address 2 and its member at address 6.
\<close>

definition demo_output :: pyval where
  "demo_output =
     PDict [(''leads'', PList [PInt 1, PInt 2, PInt 3]), (''a'', PDict [(''b'', PInt 5)]),
            (''msg'', PStr ''{{config.x}}''), (''opt'', PNone), (''ok'', PBool True),
            (''w'', PFloat 0.5)]"

definition demo_heap :: heap where
  "demo_heap =
     (\<lambda>a. ONone)
       (0 := ODict [(''leads'', 1), (''a'', 2), (''msg'', 7), (''opt'', 8), (''ok'', 9), (''w'', 10)],
        1 := OList [3, 4, 5],
        2 := ODict [(''b'', 6)],
        3 := OInt 1, 4 := OInt 2, 5 := OInt 3,
        6 := OInt 5,
        7 := OStr ''{{config.x}}'',
        9 := OBool True,
        10 := OFloat 0.5)"

lemmas demo_defs = demo_step_def demo_externals_def demo_workflow_def three_steps_def
  AGENT_REGISTRY_def initial_state_def resolve_inputs_def dict_get_def

section \<open>Facts about the pattern, the split and the walks\<close>

lemma split_dot_not_Nil: "split_dot s \<noteq> []"
  by (induction s) auto

lemma takeWhile_run: "c \<notin> set xs \<Longrightarrow> takeWhile (\<lambda>x. x \<noteq> c) (xs @ c # ys) = xs"
  by (induction xs) auto

lemma dropWhile_run: "c \<notin> set xs \<Longrightarrow> dropWhile (\<lambda>x. x \<noteq> c) (xs @ c # ys) = c # ys"
  by (induction xs) auto

lemma match_here_token:
  assumes "g \<noteq> []" "CHR ''}'' \<notin> set g"
  shows "match_here (''{{'' @ g @ ''}}'' @ suf) = Some g"
  using assms takeWhile_run [of "CHR ''}''" g "CHR ''}'' # suf"]
    dropWhile_run [of "CHR ''}''" g "CHR ''}'' # suf"]
  by (simp add: Let_def)

lemma match_here_group:
  assumes "match_here s = Some g"
  shows "g \<noteq> [] \<and> CHR ''}'' \<notin> set g"
proof (cases s rule: match_here.cases)
  case (1 a b rest)
  with assms have "g = takeWhile (\<lambda>c. c \<noteq> CHR ''}'') rest" and "g \<noteq> []"
    by (auto simp: Let_def split: if_splits)
  moreover have "CHR ''}'' \<notin> set (takeWhile (\<lambda>c. c \<noteq> CHR ''}'') rest)"
    by (auto dest: set_takeWhileD)
  ultimately show ?thesis by simp
qed (use assms in auto)

lemma re_search_group: "re_search s = Some g \<Longrightarrow> g \<noteq> [] \<and> CHR ''}'' \<notin> set g"
  by (induction s) (auto split: option.splits dest: match_here_group)

lemma re_search_bare:
  assumes "g \<noteq> []" "CHR ''}'' \<notin> set g"
  shows "re_search (''{{'' @ g @ ''}}'') = Some g"
  using match_here_token [OF assms, of "[]"] by simp

text \<open>
  A token after text without an opening brace is the first match, whatever follows it.
\<close>

lemma re_search_token:
  assumes "CHR ''{'' \<notin> set pre" "g \<noteq> []" "CHR ''}'' \<notin> set g"
  shows "re_search (pre @ ''{{'' @ g @ ''}}'' @ suf) = Some g"
  using assms(1)
proof (induction pre)
  case Nil
  show ?case using match_here_token [OF assms(2,3), of suf] by simp
next
  case (Cons a pre)
  have "match_here (a # pre @ ''{{'' @ g @ ''}}'' @ suf) = None"
    using Cons.prems by (cases pre) auto
  then show ?case using Cons by simp
qed







section \<open>Facts about the walk of a recorded output\<close>

lemma step_walk_stored: "stored_at v ps = Some r \<Longrightarrow> step_walk v ps = r"
  by (induction ps arbitrary: v) (auto simp: dict_get_def split: pyval.splits option.splits)

lemma step_walk_append: "step_walk v (xs @ ys) = step_walk (step_walk v xs) ys"
  by (induction xs arbitrary: v) (auto split: pyval.splits)

lemma step_walk_empty: "step_walk (PDict []) ps = PDict []"
  by (induction ps) (auto simp: dict_get_def)

lemma step_walk_non_dict: "(\<nexists>d. v = PDict d) \<Longrightarrow> step_walk v ps = v"
  by (induction ps) (auto split: pyval.splits)

lemma step_walk_ref_Fresh: "step_walk_ref h Fresh ps = Fresh"
  by (induction ps) auto

text \<open>
  The walk on references and the walk on values go together: from an object that is the
  value \<open>v\<close>, the reference reached is an object of the heap that is the value reached
  from \<open>v\<close>, or it is the new empty dictionary and so is the value reached.
\<close>

lemma holds_items_lookup:
  "holds_items h d items \<Longrightarrow>
   (case map_of d k of
      None \<Rightarrow> map_of items k = None
    | Some a' \<Rightarrow> (\<exists>v'. map_of items k = Some v' \<and> holds h a' v'))"
proof (induction d arbitrary: items)
  case Nil
  then show ?case by (cases items) auto
next
  case (Cons ka d)
  then show ?case by (cases items) (auto split: option.splits)
qed

lemma holds_non_dict:
  "holds h a v \<Longrightarrow> (\<nexists>d. v = PDict d) \<Longrightarrow> (\<nexists>d. h a = ODict d)"
  by (cases v) (auto split: obj.splits)

lemma step_walk_ref_holds:
  "holds h a v \<Longrightarrow>
   (case step_walk_ref h (Stored a) ps of
      Stored a' \<Rightarrow> holds h a' (step_walk v ps)
    | Fresh \<Rightarrow> step_walk v ps = PDict [])"
proof (induction ps arbitrary: a v)
  case Nil
  then show ?case by simp
next
  case (Cons p ps)
  show ?case
  proof (cases "\<exists>items. v = PDict items")
    case True
    then obtain items where v: "v = PDict items" by blast
    with Cons.prems obtain d where d: "h a = ODict d" and hi: "holds_items h d items"
      by (auto split: obj.splits)
    show ?thesis
    proof (cases "map_of d p")
      case None
      then have "map_of items p = None"
        using holds_items_lookup [OF hi, of p] by simp
      then have e1: "step_walk v (p # ps) = PDict []"
        using v by (simp add: dict_get_def step_walk_empty)
      have e2: "step_walk_ref h (Stored a) (p # ps) = Fresh"
        using None d by (simp add: step_walk_ref_Fresh)
      show ?thesis unfolding e1 e2 by simp
    next
      case (Some a')
      then obtain v' where v': "map_of items p = Some v'" and h': "holds h a' v'"
        using holds_items_lookup [OF hi, of p] by auto
      have e1: "step_walk v (p # ps) = step_walk v' ps"
        using v' v by (simp add: dict_get_def)
      have e2: "step_walk_ref h (Stored a) (p # ps) = step_walk_ref h (Stored a') ps"
        using Some d by simp
      show ?thesis unfolding e1 e2 by (rule Cons.IH [OF h'])
    qed
  next
    case False
    then have e1: "step_walk v (p # ps) = step_walk v ps"
      by (cases v) auto
    have "\<nexists>d. h a = ODict d"
      using holds_non_dict [OF Cons.prems] False by blast
    then have e2: "step_walk_ref h (Stored a) (p # ps) = step_walk_ref h (Stored a) ps"
      by (cases "h a") auto
    show ?thesis unfolding e1 e2 by (rule Cons.IH [OF Cons.prems])
  qed
qed

lemma step_walk_ref_addr_at:
  "addr_at h a ps = Some a' \<Longrightarrow> step_walk_ref h (Stored a) ps = Stored a'"
  by (induction ps arbitrary: a) (auto split: obj.splits option.splits)

lemma demo_heap_holds: "holds demo_heap 0 demo_output"
  by (simp add: demo_output_def demo_heap_def)

lemma demo_heap_holds_not: "\<not> holds demo_heap 1 demo_output"
  by (simp add: demo_output_def demo_heap_def)

lemma demo_stored:
  "stored_at demo_output [''leads''] = Some (PList [PInt 1, PInt 2, PInt 3])"
  "stored_at demo_output [''a''] = Some (PDict [(''b'', PInt 5)])"
  "stored_at demo_output [''a'', ''b''] = Some (PInt 5)"
  "stored_at demo_output [''msg''] = Some (PStr ''{{config.x}}'')"
  by (simp_all add: demo_output_def)

lemma demo_addr:
  "addr_at demo_heap 0 [''leads''] = Some 1"
  "addr_at demo_heap 0 [''a'', ''b''] = Some 6"
  by (simp_all add: demo_heap_def)

lemma demo_walk_ref:
  "step_walk_ref demo_heap (Stored 0) [''leads'', ''n''] = Stored 1"
  "step_walk_ref demo_heap (Stored 0) [''a'', ''zz'', ''b''] = Fresh"
  by (simp_all add: demo_heap_def)

section \<open>Claims about the reference resolver\<close>

text \<open>
  C1, as the code has it. A reference whose first segment is not \<^verbatim>\<open>config\<close>, with
  at least three segments, whose step id has no entry in \<^verbatim>\<open>step_outputs\<close>: the test
  \<^verbatim>\<open>if step_id in step_outputs\<close> fails and control reaches \<^verbatim>\<open>return value\<close>, so
  the scalar string is returned unchanged, not an empty mapping.
\<close>

theorem absent_step_reference_unchanged:
  assumes "re_search value = Some ref_path"
    and "split_dot ref_path = sid # second # rest" and "rest \<noteq> []"
    and "sid \<noteq> ''config''"
    and "map_of outs sid = None"
  shows "resolve_value outs cfg (PStr value) = Inr (PStr value)"
  using assms by (cases rest) (simp_all add: Let_def)

theorem absent_step_reference_unchanged_witness:
  "resolve_value [(''s2'', PDict [])] [] (PStr ''see {{s1.output.leads}}'') =
     Inr (PStr ''see {{s1.output.leads}}'')"
  using absent_step_reference_unchanged
    [of "''see {{s1.output.leads}}''" "''s1.output.leads''" "''s1''" "''output''" "[''leads'']"
        "[(''s2'', PDict [])]" "[]"]
  by simp

text \<open>
  C1, as the claim states it, fails: with no recorded output at all, the reference
  \<^verbatim>\<open>{{s1.output.leads}}\<close> has three segments and an absent step id, and it does not
  resolve to the empty mapping.
\<close>

theorem absent_step_not_empty_mapping:
  "split_dot ''s1.output.leads'' = [''s1'', ''output'', ''leads''] \<and>
   map_of ([] :: dict) ''s1'' = None \<and>
   resolve_value [] [] (PStr ''{{s1.output.leads}}'') \<noteq> Inr (PDict [])"
  by simp

text \<open>
  C3, as the code has it. A string whose first token is \<^verbatim>\<open>{{ref_path}}\<close>, with any
  text \<open>pre\<close> before it and any text \<open>suf\<close> after it. When the reference resolves (its
  first segment is \<^verbatim>\<open>config\<close>, or it has at least three segments and its step id has
  a recorded output), the result is the result for the bare token: the text around the
  token contributes nothing, and nothing is concatenated. When it does not resolve, the
  string is returned as it is, with the text around the token. By \<open>re_search_token\<close>
  the hypothesis holds whenever \<open>pre\<close> has no opening brace and \<open>ref_path\<close> is not
  empty and has no closing brace.
\<close>

theorem resolved_reference_replaces_string:
  assumes "re_search (pre @ ''{{'' @ ref_path @ ''}}'' @ suf) = Some ref_path"
  shows "(hd (split_dot ref_path) = ''config'' \<or>
          (3 \<le> length (split_dot ref_path) \<and> map_of outs (hd (split_dot ref_path)) \<noteq> None)
          \<longrightarrow> resolve_value outs cfg (PStr (pre @ ''{{'' @ ref_path @ ''}}'' @ suf)) =
               resolve_value outs cfg (PStr (''{{'' @ ref_path @ ''}}'')))
       \<and> (\<not> (hd (split_dot ref_path) = ''config'' \<or>
             (3 \<le> length (split_dot ref_path) \<and> map_of outs (hd (split_dot ref_path)) \<noteq> None))
          \<longrightarrow> resolve_value outs cfg (PStr (pre @ ''{{'' @ ref_path @ ''}}'' @ suf)) =
               Inr (PStr (pre @ ''{{'' @ ref_path @ ''}}'' @ suf)))"
proof -
  have "re_search (''{{'' @ ref_path @ ''}}'') = Some ref_path"
    using re_search_group [OF assms(1)] re_search_bare by blast
  then show ?thesis using assms by (auto simp: Let_def)
qed

theorem resolved_reference_replaces_string_witness:
  "resolve_value [] [(''x'', PInt 9)] (PStr ''prefix {{config.x}} suffix'') = Inr (PInt 9)
 \<and> resolve_value [(''s1'', PDict [(''n'', PInt 7)])] [] (PStr ''got {{s1.output.n}} leads'')
     = Inr (PInt 7)
 \<and> resolve_value [] [] (PStr ''got {{leads}} today'') = Inr (PStr ''got {{leads}} today'')"
  using
    resolved_reference_replaces_string
      [of "''prefix ''" "''config.x''" "'' suffix''" "[]" "[(''x'', PInt 9)]"]
    resolved_reference_replaces_string
      [of "''got ''" "''s1.output.n''" "'' leads''" "[(''s1'', PDict [(''n'', PInt 7)])]" "[]"]
    resolved_reference_replaces_string
      [of "''got ''" "''leads''" "'' today''" "[]" "[]"]
  by (simp add: dict_get_def)

text \<open>
  C3, as the claim states it, fails: the string below contains the token
  \<^verbatim>\<open>{{s1.output.x}}\<close>, the step \<^verbatim>\<open>s1\<close> has no recorded output, and the result is
  the whole string, with the text before and after the token still in it.
\<close>

theorem unresolved_reference_keeps_text:
  "re_search ''prefix {{s1.output.x}} suffix'' = Some ''s1.output.x'' \<and>
   resolve_value [] [(''x'', PInt 9)] (PStr ''prefix {{s1.output.x}} suffix'') =
     Inr (PStr ''prefix {{s1.output.x}} suffix'')"
  by simp

text \<open>
  C4. A reference with at least three segments whose first segment \<open>sid\<close> is a step id
  (not \<^verbatim>\<open>config\<close>) with the recorded output \<open>outp\<close>, and \<open>rest\<close> the segments from
  the third on. The second segment does not occur in any of the results. When \<open>rest\<close>
  is a path of keys in the output, however long, the result is the value stored under
  that path. When a dictionary reached on the way lacks the next segment, the result is
  the empty mapping. When the value reached on the way is not a dictionary, the later
  segments are skipped and that value is the result. On references: from the object
  that is the recorded output, the walk ends at an object of the same heap, which is the
  value returned, or at a new empty dictionary; and when \<open>rest\<close> is a path of keys, it
  ends at the very address stored under that path, so the stored object itself is
  returned and no copy is made.
\<close>

theorem step_reference_walk:
  assumes "re_search str = Some ref_path"
    and "split_dot ref_path = sid # second # rest" and "rest \<noteq> []"
    and "sid \<noteq> ''config''"
    and "map_of outs sid = Some outp"
  shows "resolve_value outs cfg (PStr str) = Inr (step_walk outp rest)
       \<and> (stored_at outp rest = Some v \<longrightarrow> resolve_value outs cfg (PStr str) = Inr v)
       \<and> (rest = found @ missing # later \<and> stored_at outp found = Some (PDict d)
            \<and> map_of d missing = None
            \<longrightarrow> resolve_value outs cfg (PStr str) = Inr (PDict []))
       \<and> (rest = walked @ skipped \<and> stored_at outp walked = Some w \<and> (\<nexists>d'. w = PDict d')
            \<longrightarrow> resolve_value outs cfg (PStr str) = Inr w)
       \<and> (holds h a outp \<longrightarrow>
            (case step_walk_ref h (Stored a) rest of
               Stored a' \<Rightarrow> (\<exists>r. holds h a' r \<and> resolve_value outs cfg (PStr str) = Inr r)
             | Fresh \<Rightarrow> resolve_value outs cfg (PStr str) = Inr (PDict [])))
       \<and> (holds h a outp \<and> addr_at h a rest = Some b
            \<longrightarrow> step_walk_ref h (Stored a) rest = Stored b
              \<and> (\<exists>r. holds h b r \<and> resolve_value outs cfg (PStr str) = Inr r))"
proof -
  have r: "resolve_value outs cfg (PStr str) = Inr (step_walk outp rest)"
    using assms by (cases rest) (simp_all add: Let_def)
  have c2: "stored_at outp rest = Some v \<longrightarrow> step_walk outp rest = v"
    by (simp add: step_walk_stored)
  have c3: "rest = found @ missing # later \<and> stored_at outp found = Some (PDict d)
            \<and> map_of d missing = None
            \<longrightarrow> step_walk outp rest = PDict []"
    by (auto simp: step_walk_append step_walk_stored step_walk_empty dict_get_def)
  have c4: "rest = walked @ skipped \<and> stored_at outp walked = Some w \<and> (\<nexists>d'. w = PDict d')
            \<longrightarrow> step_walk outp rest = w"
    by (auto simp: step_walk_append step_walk_stored step_walk_non_dict)
  have c5: "holds h a outp \<longrightarrow>
            (case step_walk_ref h (Stored a) rest of
               Stored a' \<Rightarrow> (\<exists>r. holds h a' r \<and> step_walk outp rest = r)
             | Fresh \<Rightarrow> step_walk outp rest = PDict [])"
    using step_walk_ref_holds [of h a outp rest] by (auto split: ref.splits)
  have c6: "holds h a outp \<and> addr_at h a rest = Some b
            \<longrightarrow> step_walk_ref h (Stored a) rest = Stored b
              \<and> (\<exists>r. holds h b r \<and> step_walk outp rest = r)"
    using step_walk_ref_holds [of h a outp rest] step_walk_ref_addr_at [of h a rest b]
    by auto
  show ?thesis unfolding r using c2 c3 c4 c5 c6 by (simp split: ref.splits)
qed

theorem step_reference_walk_witness:
  "resolve_value [(''s1'', demo_output)] [] (PStr ''{{s1.output.leads}}'')
     = Inr (PList [PInt 1, PInt 2, PInt 3])
 \<and> stored_at demo_output [''a'', ''b''] = Some (PInt 5)
 \<and> resolve_value [(''s1'', demo_output)] [] (PStr ''{{s1.o.a.b}}'') = Inr (PInt 5)
 \<and> resolve_value [(''s1'', demo_output)] [] (PStr ''{{s1.x.a.b}}'') = Inr (PInt 5)
 \<and> resolve_value [(''s1'', demo_output)] [] (PStr ''{{s1.o.a.zz.b}}'') = Inr (PDict [])
 \<and> resolve_value [(''s1'', demo_output)] [] (PStr ''{{s1.o.leads.n}}'')
     = Inr (PList [PInt 1, PInt 2, PInt 3])
 \<and> resolve_value [(''s1'', demo_output)] [(''x'', PInt 9)] (PStr ''{{s1.o.msg}}'')
     = Inr (PStr ''{{config.x}}'')
 \<and> holds demo_heap 0 demo_output
 \<and> \<not> holds demo_heap 1 demo_output
 \<and> addr_at demo_heap 0 [''leads''] = Some 1
 \<and> step_walk_ref demo_heap (Stored 0) [''leads''] = Stored 1
 \<and> addr_at demo_heap 0 [''a'', ''b''] = Some 6
 \<and> step_walk_ref demo_heap (Stored 0) [''a'', ''b''] = Stored 6
 \<and> step_walk_ref demo_heap (Stored 0) [''leads'', ''n''] = Stored 1
 \<and> step_walk_ref demo_heap (Stored 0) [''a'', ''zz'', ''b''] = Fresh"
proof -
  have m: "map_of [(''s1'', demo_output)] ''s1'' = Some demo_output" by simp
  have c: "''s1'' \<noteq> ''config''" by simp
  have ne: "[''leads''] \<noteq> []" "[''a'', ''b''] \<noteq> []" "[''a'', ''zz'', ''b''] \<noteq> []"
    "[''leads'', ''n''] \<noteq> []" "[''msg''] \<noteq> []"
    by simp_all
  have r1: "re_search ''{{s1.output.leads}}'' = Some ''s1.output.leads''" by simp
  have s1: "split_dot ''s1.output.leads'' = ''s1'' # ''output'' # [''leads'']" by simp
  have r2: "re_search ''{{s1.o.a.b}}'' = Some ''s1.o.a.b''" by simp
  have s2: "split_dot ''s1.o.a.b'' = ''s1'' # ''o'' # [''a'', ''b'']" by simp
  have r3: "re_search ''{{s1.x.a.b}}'' = Some ''s1.x.a.b''" by simp
  have s3: "split_dot ''s1.x.a.b'' = ''s1'' # ''x'' # [''a'', ''b'']" by simp
  have r4: "re_search ''{{s1.o.a.zz.b}}'' = Some ''s1.o.a.zz.b''" by simp
  have s4: "split_dot ''s1.o.a.zz.b'' = ''s1'' # ''o'' # [''a'', ''zz'', ''b'']" by simp
  have r5: "re_search ''{{s1.o.leads.n}}'' = Some ''s1.o.leads.n''" by simp
  have s5: "split_dot ''s1.o.leads.n'' = ''s1'' # ''o'' # [''leads'', ''n'']" by simp
  have r6: "re_search ''{{s1.o.msg}}'' = Some ''s1.o.msg''" by simp
  have s6: "split_dot ''s1.o.msg'' = ''s1'' # ''o'' # [''msg'']" by simp
  note T1 = step_reference_walk
      [OF r1 s1 ne(1) c m, where cfg = "[]" and v = "PList [PInt 1, PInt 2, PInt 3]"
         and h = demo_heap and a = 0 and b = 1]
  have t1: "resolve_value [(''s1'', demo_output)] [] (PStr ''{{s1.output.leads}}'')
              = Inr (PList [PInt 1, PInt 2, PInt 3])"
    by (rule T1 [THEN conjunct2, THEN conjunct1, THEN mp, OF demo_stored(1)])
  have u1: "step_walk_ref demo_heap (Stored 0) [''leads''] = Stored 1"
    by (rule T1 [THEN conjunct2, THEN conjunct2, THEN conjunct2, THEN conjunct2, THEN conjunct2,
          THEN mp, OF conjI [OF demo_heap_holds demo_addr(1)], THEN conjunct1])
  note T2 = step_reference_walk
      [OF r2 s2 ne(2) c m, where cfg = "[]" and v = "PInt 5"
         and h = demo_heap and a = 0 and b = 6]
  have t2: "resolve_value [(''s1'', demo_output)] [] (PStr ''{{s1.o.a.b}}'') = Inr (PInt 5)"
    by (rule T2 [THEN conjunct2, THEN conjunct1, THEN mp, OF demo_stored(3)])
  have u2: "step_walk_ref demo_heap (Stored 0) [''a'', ''b''] = Stored 6"
    by (rule T2 [THEN conjunct2, THEN conjunct2, THEN conjunct2, THEN conjunct2, THEN conjunct2,
          THEN mp, OF conjI [OF demo_heap_holds demo_addr(2)], THEN conjunct1])
  note T3 = step_reference_walk [OF r3 s3 ne(2) c m, where cfg = "[]" and v = "PInt 5"]
  have t3: "resolve_value [(''s1'', demo_output)] [] (PStr ''{{s1.x.a.b}}'') = Inr (PInt 5)"
    by (rule T3 [THEN conjunct2, THEN conjunct1, THEN mp, OF demo_stored(3)])
  have k4: "[''a'', ''zz'', ''b''] = [''a''] @ ''zz'' # [''b'']"
    and l4: "map_of [(''b'', PInt 5)] ''zz'' = None" by simp_all
  note T4 = step_reference_walk
      [OF r4 s4 ne(3) c m, where cfg = "[]" and found = "[''a'']" and missing = "''zz''"
         and later = "[''b'']" and d = "[(''b'', PInt 5)]"]
  have t4: "resolve_value [(''s1'', demo_output)] [] (PStr ''{{s1.o.a.zz.b}}'') = Inr (PDict [])"
    by (rule T4 [THEN conjunct2, THEN conjunct2, THEN conjunct1, THEN mp,
          OF conjI [OF k4 conjI [OF demo_stored(2) l4]]])
  have k5: "[''leads'', ''n''] = [''leads''] @ [''n'']"
    and l5: "\<nexists>d'. PList [PInt 1, PInt 2, PInt 3] = PDict d'" by simp_all
  note T5 = step_reference_walk
      [OF r5 s5 ne(4) c m, where cfg = "[]" and walked = "[''leads'']" and skipped = "[''n'']"
         and w = "PList [PInt 1, PInt 2, PInt 3]"]
  have t5: "resolve_value [(''s1'', demo_output)] [] (PStr ''{{s1.o.leads.n}}'')
              = Inr (PList [PInt 1, PInt 2, PInt 3])"
    by (rule T5 [THEN conjunct2, THEN conjunct2, THEN conjunct2, THEN conjunct1, THEN mp,
          OF conjI [OF k5 conjI [OF demo_stored(1) l5]]])
  note T6 = step_reference_walk
      [OF r6 s6 ne(5) c m, where cfg = "[(''x'', PInt 9)]" and v = "PStr ''{{config.x}}''"]
  have t6: "resolve_value [(''s1'', demo_output)] [(''x'', PInt 9)] (PStr ''{{s1.o.msg}}'')
              = Inr (PStr ''{{config.x}}'')"
    by (rule T6 [THEN conjunct2, THEN conjunct1, THEN mp, OF demo_stored(4)])
  show ?thesis
    by (intro conjI t1 t2 t3 t4 t5 t6 u1 u2 demo_heap_holds demo_heap_holds_not
          demo_stored(3) demo_addr demo_walk_ref)
qed





section \<open>Facts about the graph builder\<close>

lemma add_nodes_distinct:
  "distinct (map fst (nodes g) @ map step_id ss) \<Longrightarrow>
   add_nodes g ss = Inr (g\<lparr>nodes := nodes g @ map (\<lambda>s. (step_id s, s)) ss\<rparr>)"
proof (induction ss arbitrary: g)
  case Nil
  show ?case by simp
next
  case (Cons s ss)
  let ?g' = "g\<lparr>nodes := nodes g @ [(step_id s, s)]\<rparr>"
  have a: "add_node g (step_id s) s = Inr ?g'"
    using Cons.prems by (auto simp: add_node_def)
  have "distinct (map fst (nodes ?g') @ map step_id ss)"
    using Cons.prems by auto
  from Cons.IH [OF this] a show ?case by simp
qed

lemma add_nodes_repeated:
  "distinct (map fst (nodes g)) \<Longrightarrow> \<not> distinct (map fst (nodes g) @ map step_id ss) \<Longrightarrow>
   \<exists>name \<in> step_id ` set ss.
      add_nodes g ss = Inl (DuplicateStepIdError name)"
proof (induction ss arbitrary: g)
  case Nil
  then show ?case by simp
next
  case (Cons s ss)
  show ?case
  proof (cases "step_id s \<in> set (map fst (nodes g))")
    case True
    then show ?thesis by (auto simp: add_node_def)
  next
    case False
    let ?g' = "g\<lparr>nodes := nodes g @ [(step_id s, s)]\<rparr>"
    have a: "add_node g (step_id s) s = Inr ?g'"
      using False by (auto simp: add_node_def)
    have d: "distinct (map fst (nodes ?g'))" using Cons.prems(1) False by auto
    have n: "\<not> distinct (map fst (nodes ?g') @ map step_id ss)"
      using Cons.prems(2) by auto
    from Cons.IH [OF d n] a show ?thesis by auto
  qed
qed

lemma fold_add_edge:
  "fold (\<lambda>i g. add_edge g (f i) (h i)) is g = g\<lparr>edges := edges g @ map (\<lambda>i. (f i, h i)) is\<rparr>"
  by (induction "is" arbitrary: g) (auto simp: add_edge_def)

lemma build_graph_chain:
  assumes "steps wfl \<noteq> []" and "distinct (map step_id (steps wfl))"
  shows "build_graph wfl =
     Inr \<lparr>nodes = map (\<lambda>s. (step_id s, s)) (steps wfl),
          edges = map (\<lambda>i. (step_id (steps wfl ! i), Node (step_id (steps wfl ! (i + 1)))))
                    [0 ..< length (steps wfl) - 1]
                  @ [(step_id (last (steps wfl)), END)],
          entry_point = Some (step_id (hd (steps wfl)))\<rparr>"
proof -
  have "add_nodes StateGraph (steps wfl) =
        Inr (StateGraph\<lparr>nodes := map (\<lambda>s. (step_id s, s)) (steps wfl)\<rparr>)"
    using add_nodes_distinct [of StateGraph "steps wfl"] assms(2) by (simp add: StateGraph_def)
  then show ?thesis
    using assms(1)
    by (cases "steps wfl")
       (simp_all add: build_graph_def fold_add_edge compile_def Let_def del: upt_Suc,
        simp add: set_entry_point_def add_edge_def StateGraph_def del: upt_Suc)
qed

lemma add_nodes_nodes:
  "add_nodes g ss = Inr g' \<Longrightarrow> nodes g' = nodes g @ map (\<lambda>s. (step_id s, s)) ss"
proof (induction ss arbitrary: g)
  case Nil
  then show ?case by simp
next
  case (Cons s ss)
  then obtain g1 where a: "add_node g (step_id s) s = Inr g1" and r: "add_nodes g1 ss = Inr g'"
    by (auto split: sum.splits)
  from a have "nodes g1 = nodes g @ [(step_id s, s)]"
    by (auto simp: add_node_def split: if_splits)
  then show ?case using Cons.IH [OF r] by simp
qed

text \<open>A graph that has been built has the steps as its nodes, and their ids differ.\<close>

lemma build_graph_nodes:
  assumes "build_graph wfl = Inr g"
  shows "map snd (nodes g) = steps wfl"
proof -
  from assms obtain g1 where a: "add_nodes StateGraph (steps wfl) = Inr g1"
    by (auto simp: build_graph_def split: sum.splits)
  have n1: "nodes g1 = map (\<lambda>s. (step_id s, s)) (steps wfl)"
    using add_nodes_nodes [OF a] by (simp add: StateGraph_def)
  have "nodes g = nodes g1"
    using assms a
    by (cases "steps wfl")
       (simp_all add: build_graph_def fold_add_edge compile_def Let_def del: upt_Suc,
        auto simp: set_entry_point_def add_edge_def)
  then show ?thesis using n1 by (simp add: comp_def)
qed

lemma build_graph_distinct:
  assumes "build_graph wfl = Inr g"
  shows "distinct (map step_id (steps wfl))"
proof (rule ccontr)
  assume "\<not> distinct (map step_id (steps wfl))"
  then obtain name where
    "add_nodes StateGraph (steps wfl) = Inl (DuplicateStepIdError name)"
    using add_nodes_repeated [of StateGraph "steps wfl"] by (auto simp: StateGraph_def)
  then show False using assms by (simp add: build_graph_def)
qed

section \<open>Claims about the graph builder\<close>

text \<open>
  C6. For a non-empty step list of length \<open>n\<close>, \<^verbatim>\<open>build_graph\<close> produces a graph
  when the ids of the steps are pairwise distinct (as the ids of a workflow are), and
  the graph it produces has one node per step in the order of the steps, the id of the
  first step as entry point, and \<open>n\<close> edges: for each \<open>i < n - 1\<close> the edge from step
  \<open>i\<close> to step \<open>i + 1\<close>, and last the edge from the last step to \<^verbatim>\<open>END\<close>. The graph
  is one chain.
\<close>

theorem build_graph_linear_chain:
  assumes "steps wfl \<noteq> []"
  shows "(distinct (map step_id (steps wfl)) \<longrightarrow> (\<exists>g. build_graph wfl = Inr g))
       \<and> (\<forall>g. build_graph wfl = Inr g \<longrightarrow>
             map fst (nodes g) = map step_id (steps wfl)
           \<and> map snd (nodes g) = steps wfl
           \<and> entry_point g = Some (step_id (steps wfl ! 0))
           \<and> length (edges g) = length (steps wfl)
           \<and> (\<forall>i < length (steps wfl) - 1.
                 edges g ! i = (step_id (steps wfl ! i), Node (step_id (steps wfl ! (i + 1)))))
           \<and> edges g ! (length (steps wfl) - 1) =
                 (step_id (steps wfl ! (length (steps wfl) - 1)), END))"
proof (intro conjI allI impI)
  assume "distinct (map step_id (steps wfl))"
  then show "\<exists>g. build_graph wfl = Inr g"
    using build_graph_chain [OF assms] by simp
next
  fix g
  assume b: "build_graph wfl = Inr g"
  let ?n = "length (steps wfl)"
  let ?int = "map (\<lambda>i. (step_id (steps wfl ! i), Node (step_id (steps wfl ! (i + 1)))))
                [0 ..< ?n - 1]"
  have g: "g = \<lparr>nodes = map (\<lambda>s. (step_id s, s)) (steps wfl),
                edges = ?int @ [(step_id (last (steps wfl)), END)],
                entry_point = Some (step_id (hd (steps wfl)))\<rparr>"
    using build_graph_chain [OF assms build_graph_distinct [OF b]] b by simp
  show "map fst (nodes g) = map step_id (steps wfl)"
    unfolding g by (simp add: comp_def)
  show "map snd (nodes g) = steps wfl"
    unfolding g by (simp add: comp_def)
  show "entry_point g = Some (step_id (steps wfl ! 0))"
    unfolding g using assms by (simp add: hd_conv_nth)
  show "length (edges g) = ?n"
    unfolding g using assms by simp
  show "edges g ! (?n - 1) = (step_id (steps wfl ! (?n - 1)), END)"
    unfolding g using assms by (simp add: nth_append last_conv_nth del: upt_Suc)
  fix i
  assume "i < ?n - 1"
  then show "edges g ! i = (step_id (steps wfl ! i), Node (step_id (steps wfl ! (i + 1))))"
    unfolding g by (simp add: nth_append del: upt_Suc)
qed

theorem build_graph_linear_chain_witness:
  "steps (demo_workflow three_steps) \<noteq> []
 \<and> distinct (map step_id (steps (demo_workflow three_steps)))
 \<and> build_graph (demo_workflow three_steps) =
     Inr \<lparr>nodes = map (\<lambda>s. (step_id s, s)) three_steps,
          edges = [(''s1'', Node ''s2''), (''s2'', Node ''s3''), (''s3'', END)],
          entry_point = Some ''s1''\<rparr>"
  using build_graph_linear_chain [of "demo_workflow three_steps"]
  by (simp add: demo_defs build_graph_def add_node_def add_edge_def set_entry_point_def
      compile_def StateGraph_def)

text \<open>
  C7, as the code has it. The build of an empty step list fails with the
  \<^verbatim>\<open>IndexError\<close> that \<^verbatim>\<open>steps[0]\<close> raises, since the source has no test for an
  empty list and no error type for it; the build of a step list that repeats an id fails
  when the graph package refuses the second node of that id. Both failures come from
  \<^verbatim>\<open>build_graph\<close>, so \<^verbatim>\<open>execute\<close> is not reached and no step runs: the failure
  carries no run state and is the same for every behaviour of the agents.
\<close>

theorem build_failures:
  "(steps wfl = [] \<longrightarrow>
      build_graph wfl = Inl IndexError \<and> build_and_execute ext wfl = Inl (IndexError, None))
 \<and> (\<not> distinct (map step_id (steps wfl)) \<longrightarrow>
      (\<exists>name \<in> step_id ` set (steps wfl).
         build_graph wfl = Inl (DuplicateStepIdError name)
       \<and> build_and_execute ext wfl = Inl (DuplicateStepIdError name, None)))"
proof (rule conjI; rule impI)
  assume "steps wfl = []"
  then show "build_graph wfl = Inl IndexError \<and> build_and_execute ext wfl = Inl (IndexError, None)"
    by (simp add: build_and_execute_def build_graph_def)
next
  assume "\<not> distinct (map step_id (steps wfl))"
  then obtain name where n: "name \<in> step_id ` set (steps wfl)"
    and a: "add_nodes StateGraph (steps wfl) = Inl (DuplicateStepIdError name)"
    using add_nodes_repeated [of StateGraph "steps wfl"] by (auto simp: StateGraph_def)
  have "build_graph wfl = Inl (DuplicateStepIdError name)"
    using a by (simp add: build_graph_def)
  then show "\<exists>name \<in> step_id ` set (steps wfl).
         build_graph wfl = Inl (DuplicateStepIdError name)
       \<and> build_and_execute ext wfl = Inl (DuplicateStepIdError name, None)"
    using n by (auto simp: build_and_execute_def)
qed

theorem build_failures_witness:
  "build_and_execute demo_externals (demo_workflow []) = Inl (IndexError, None)
 \<and> build_and_execute demo_externals (demo_workflow [demo_step ''a'' [] [], demo_step ''a'' [] []])
     = Inl (DuplicateStepIdError ''a'', None)"
  using build_failures [of "demo_workflow []" demo_externals]
    build_failures [of "demo_workflow [demo_step ''a'' [] [], demo_step ''a'' [] []]" demo_externals]
  by (simp add: demo_defs)

text \<open>
  C7, as the claim states it, fails on the error of the empty list: the source has no
  \<^verbatim>\<open>EmptySpecError\<close>, and the build of the empty workflow ends in the
  \<^verbatim>\<open>IndexError\<close> of a list index, the error of any index out of range.
\<close>

theorem build_empty_is_index_error:
  "steps (demo_workflow []) = [] \<and> build_graph (demo_workflow []) = Inl IndexError"
  by (simp add: demo_defs build_graph_def add_node_def StateGraph_def)

section \<open>Facts about the orchestrator\<close>

lemma map_of_dict_set: "map_of (dict_set d k v) k' = (if k' = k then Some v else map_of d k')"
  by (induction d k v rule: dict_set.induct) auto

lemma keys_dict_set: "fst ` set (dict_set d k v) = insert k (fst ` set d)"
  by (induction d k v rule: dict_set.induct) auto

text \<open>
  The validation is decided by the first key of the schema that the output lacks.
\<close>

lemma validate_output_find:
  "validate_output schema output =
     (case find (\<lambda>k. map_of output k = None) (map fst schema) of
        None \<Rightarrow> (True, [])
      | Some k \<Rightarrow> (False, [''Warning: Missing expected output key: '' @ k]))"
  by (induction schema) (auto split: option.splits)

lemma validate_output_snd:
  "snd (validate_output schema output) =
     (case find (\<lambda>k. map_of output k = None) (map fst schema) of
        None \<Rightarrow> []
      | Some k \<Rightarrow> [''Warning: Missing expected output key: '' @ k])"
  by (simp add: validate_output_find split: option.splits)

lemma validate_output_fst:
  "fst (validate_output schema output) \<longleftrightarrow> (\<forall>k \<in> set (map fst schema). map_of output k \<noteq> None)"
  by (induction schema) (auto split: option.splits)

lemma node_function_success:
  assumes "load_tools_config ext s = Inr tools_config"
    and "agent s \<in> set AGENT_REGISTRY"
    and "resolve_inputs (inputs s) (step_outputs st) (config wfl) = Inr ins"
    and "agent_logic ext (agent s) s tools_config ins = Inr output"
  shows "node_function ext wfl s st =
         Inr (st\<lparr>step_outputs := dict_set (step_outputs st) (step_id s) (PDict output),
                 current_step := step_id s,
                 printed := printed st @ snd (validate_output (output_schema s) output)\<rparr>)"
  using assms by (simp add: node_function_def agent_execute_def)

lemma node_function_raise:
  assumes "load_tools_config ext s = Inr tools_config"
    and "agent s \<in> set AGENT_REGISTRY"
    and "resolve_inputs (inputs s) (step_outputs st) (config wfl) = Inr ins"
    and "agent_logic ext (agent s) s tools_config ins = Inl e"
  shows "node_function ext wfl s st = Inl (e, st)"
  using assms by (simp add: node_function_def agent_execute_def)

lemma node_function_keys:
  assumes "node_function ext wfl s st = Inr st'"
  shows "set (map fst (step_outputs st')) = insert (step_id s) (set (map fst (step_outputs st)))"
proof -
  from assms obtain outp out where
    "st' = st\<lparr>step_outputs := dict_set (step_outputs st) (step_id s) (PDict outp),
               current_step := step_id s, printed := printed st @ out\<rparr>"
    by (auto simp: node_function_def agent_execute_def split: sum.splits if_splits prod.splits)
  then show ?thesis by (simp add: keys_dict_set)
qed

lemma invoke_nodes_keys:
  "invoke_nodes ext wfl ss st = Inr st' \<Longrightarrow>
   set (map fst (step_outputs st')) = set (map fst (step_outputs st)) \<union> step_id ` set ss"
proof (induction ss arbitrary: st)
  case Nil
  then show ?case by simp
next
  case (Cons s ss)
  then obtain st1 where n: "node_function ext wfl s st = Inr st1"
    and r: "invoke_nodes ext wfl ss st1 = Inr st'"
    by (auto split: sum.splits)
  show ?case using Cons.IH [OF r] node_function_keys [OF n] by auto
qed

lemma invoke_nodes_append:
  "invoke_nodes ext wfl (xs @ ys) st =
     (case invoke_nodes ext wfl xs st of
        Inl e \<Rightarrow> Inl e
      | Inr st' \<Rightarrow> invoke_nodes ext wfl ys st')"
  by (induction xs arbitrary: st) (auto split: sum.splits)

section \<open>Claims about the orchestrator\<close>

text \<open>
  C2, as the code has it. The assignment
  \<^verbatim>\<open>state['step_outputs'][step_id] = output\<close> has no test: for every state, whether
  or not the step id already has an output, the node function of a step whose agent
  returns succeeds, the step id then has the new output, and every other id keeps what it
  had. Write-once holds only through the order of a run: after a run of steps from the
  fresh state, a step whose id differs from theirs has no output yet.
\<close>

theorem record_overwrites:
  assumes "load_tools_config ext s = Inr tools_config"
    and "agent s \<in> set AGENT_REGISTRY"
    and "resolve_inputs (inputs s) (step_outputs st) (config wfl) = Inr ins"
    and "agent_logic ext (agent s) s tools_config ins = Inr outp"
  shows "(\<exists>st'. node_function ext wfl s st = Inr st'
            \<and> map_of (step_outputs st') (step_id s) = Some (PDict outp)
            \<and> (\<forall>k. k \<noteq> step_id s \<longrightarrow> map_of (step_outputs st') k = map_of (step_outputs st) k))
       \<and> (\<forall>pre. distinct (map step_id (pre @ [s]))
                \<and> invoke_nodes ext wfl pre (initial_state wfl) = Inr st
            \<longrightarrow> map_of (step_outputs st) (step_id s) = None)"
proof
  show "\<exists>st'. node_function ext wfl s st = Inr st'
            \<and> map_of (step_outputs st') (step_id s) = Some (PDict outp)
            \<and> (\<forall>k. k \<noteq> step_id s \<longrightarrow> map_of (step_outputs st') k = map_of (step_outputs st) k)"
    unfolding node_function_success [OF assms] by (simp add: map_of_dict_set)
next
  show "\<forall>pre. distinct (map step_id (pre @ [s]))
                \<and> invoke_nodes ext wfl pre (initial_state wfl) = Inr st
            \<longrightarrow> map_of (step_outputs st) (step_id s) = None"
  proof (intro allI impI, elim conjE)
    fix pre
    assume d: "distinct (map step_id (pre @ [s]))"
      and r: "invoke_nodes ext wfl pre (initial_state wfl) = Inr st"
    have "set (map fst (step_outputs st)) = step_id ` set pre"
      using invoke_nodes_keys [OF r] by (simp add: initial_state_def)
    moreover have "step_id s \<notin> step_id ` set pre" using d by auto
    ultimately show "map_of (step_outputs st) (step_id s) = None"
      by (simp add: map_of_eq_None_iff)
  qed
qed

theorem record_overwrites_witness:
  "node_function demo_externals (demo_workflow three_steps) (demo_step ''s3'' [] [])
     ((initial_state (demo_workflow three_steps))
        \<lparr>step_outputs := [(''s3'', PDict [(''old'', PInt 0)]), (''s1'', PDict [])]\<rparr>)
   = Inr ((initial_state (demo_workflow three_steps))
        \<lparr>step_outputs := [(''s3'', PDict [(''y'', PDict [])]), (''s1'', PDict [])],
         current_step := ''s3''\<rparr>)
 \<and> invoke_nodes demo_externals (demo_workflow three_steps) [] (initial_state (demo_workflow three_steps))
     = Inr (initial_state (demo_workflow three_steps))
 \<and> map_of (step_outputs (initial_state (demo_workflow three_steps))) ''s1'' = None"
  using
    record_overwrites
      [where ext = demo_externals and s = "demo_step ''s3'' [] []" and tools_config = "[]"
         and wfl = "demo_workflow three_steps" and ins = "PDict []" and outp = "[(''y'', PDict [])]"
         and st = "(initial_state (demo_workflow three_steps))
                     \<lparr>step_outputs := [(''s3'', PDict [(''old'', PInt 0)]), (''s1'', PDict [])]\<rparr>"]
    record_overwrites
      [where ext = demo_externals
         and s = "demo_step ''s1'' [(''x'', PInt 1)] [(''y'', PDict []), (''z'', PDict [])]"
         and tools_config = "[]" and wfl = "demo_workflow three_steps"
         and ins = "PDict [(''x'', PInt 1)]" and outp = "[(''y'', PDict [(''x'', PInt 1)])]"
         and st = "initial_state (demo_workflow three_steps)"]
  by (simp add: demo_defs node_function_def agent_execute_def)

text \<open>
  C2, as the claim states it, fails: in a state where \<^verbatim>\<open>s1\<close> already has an output,
  the node function of the step \<^verbatim>\<open>s1\<close> succeeds and the earlier output is gone.
\<close>

theorem record_twice_succeeds:
  "node_function demo_externals (demo_workflow three_steps) (demo_step ''s1'' [(''x'', PInt 1)] [])
     ((initial_state (demo_workflow three_steps))
        \<lparr>step_outputs := [(''s1'', PDict [(''first'', PInt 0)])]\<rparr>)
   = Inr ((initial_state (demo_workflow three_steps))
        \<lparr>step_outputs := [(''s1'', PDict [(''y'', PDict [(''x'', PInt 1)])])],
         current_step := ''s1''\<rparr>)"
  by (simp add: demo_defs node_function_def agent_execute_def)

text \<open>
  C8. The graph is the one built from the workflow; the steps before step \<open>s\<close> have run
  from the fresh state and reached the state \<open>st\<close>; the agent of \<open>s\<close> raises \<open>e\<close>.
  Then \<^verbatim>\<open>execute\<close> ends with that same error (logged and raised again, neither
  replaced nor retried), the steps after \<open>s\<close> do not run, and the state of the run is
  \<open>st\<close>: the ids with an output are exactly the ids of the steps before \<open>s\<close>, and \<open>s\<close>
  has recorded nothing.
\<close>

theorem capability_failure_aborts_run:
  assumes "build_graph wfl = Inr g"
    and "steps wfl = pre @ s # post"
    and "invoke_nodes ext wfl pre (initial_state wfl) = Inr st"
    and "load_tools_config ext s = Inr tools_config"
    and "agent s \<in> set AGENT_REGISTRY"
    and "resolve_inputs (inputs s) (step_outputs st) (config wfl) = Inr ins"
    and "agent_logic ext (agent s) s tools_config ins = Inl e"
  shows "execute ext wfl g = Inl (e, st)
       \<and> build_and_execute ext wfl = Inl (e, Some st)
       \<and> set (map fst (step_outputs st)) = step_id ` set pre
       \<and> map_of (step_outputs st) (step_id s) = None"
proof -
  have "node_function ext wfl s st = Inl (e, st)"
    using node_function_raise [OF assms(4-7)] .
  then have "invoke_nodes ext wfl (pre @ s # post) (initial_state wfl) = Inl (e, st)"
    using assms(3) by (simp add: invoke_nodes_append)
  then have x: "execute ext wfl g = Inl (e, st)"
    using build_graph_nodes [OF assms(1)] assms(2) by (simp add: execute_def invoke_def)
  then have b: "build_and_execute ext wfl = Inl (e, Some st)"
    using assms(1) by (simp add: build_and_execute_def)
  have k: "set (map fst (step_outputs st)) = step_id ` set pre"
    using invoke_nodes_keys [OF assms(3)] by (simp add: initial_state_def)
  have "step_id s \<notin> step_id ` set pre"
    using build_graph_distinct [OF assms(1)] assms(2) by auto
  then have "map_of (step_outputs st) (step_id s) = None"
    using k by (simp add: map_of_eq_None_iff)
  then show ?thesis using x b k by simp
qed

theorem capability_failure_aborts_run_witness:
  "build_graph (demo_workflow three_steps) =
     Inr \<lparr>nodes = map (\<lambda>s. (step_id s, s)) three_steps,
          edges = [(''s1'', Node ''s2''), (''s2'', Node ''s3''), (''s3'', END)],
          entry_point = Some ''s1''\<rparr>
 \<and> build_and_execute demo_externals (demo_workflow three_steps)
   = Inl (AgentError ''s2 failed'',
          Some ((initial_state (demo_workflow three_steps))
            \<lparr>step_outputs := [(''s1'', PDict [(''y'', PDict [(''x'', PInt 1)])])],
             current_step := ''s1'',
             printed := [''Warning: Missing expected output key: z'']\<rparr>))"
  using capability_failure_aborts_run
    [where g = "\<lparr>nodes = map (\<lambda>s. (step_id s, s)) three_steps,
                 edges = [(''s1'', Node ''s2''), (''s2'', Node ''s3''), (''s3'', END)],
                 entry_point = Some ''s1''\<rparr>"
       and pre = "[demo_step ''s1'' [(''x'', PInt 1)] [(''y'', PDict []), (''z'', PDict [])]]"
       and s = "demo_step ''s2'' [(''v'', PStr ''{{s1.output.y}}'')] []"
       and post = "[demo_step ''s3'' [] []]"
       and ext = demo_externals and wfl = "demo_workflow three_steps"
       and st = "(initial_state (demo_workflow three_steps))
            \<lparr>step_outputs := [(''s1'', PDict [(''y'', PDict [(''x'', PInt 1)])])],
             current_step := ''s1'',
             printed := [''Warning: Missing expected output key: z'']\<rparr>"
       and tools_config = "[]"
       and ins = "PDict [(''v'', PDict [(''x'', PInt 1)])]"
       and e = "AgentError ''s2 failed''"]
  by (simp add: demo_defs node_function_def agent_execute_def build_graph_def add_node_def
      add_edge_def set_entry_point_def compile_def StateGraph_def)

text \<open>
  C9. The validation of an output against the schema has no failing branch: it gives
  \<^verbatim>\<open>True\<close> exactly when the output has every key of the schema, and otherwise prints
  one warning, for the first missing key. Its result is dropped: whatever the schema
  and the output of the agent, the node function succeeds, the output is recorded under
  the id of the step, the run goes on with the next steps, and what is printed is that
  warning or nothing.
\<close>

theorem validation_never_blocks_recording:
  assumes "load_tools_config ext s = Inr tools_config"
    and "agent s \<in> set AGENT_REGISTRY"
    and "resolve_inputs (inputs s) (step_outputs st) (config wfl) = Inr ins"
    and "agent_logic ext (agent s) s tools_config ins = Inr outp"
  shows "(fst (validate_output (output_schema s) outp) \<longleftrightarrow>
            (\<forall>key \<in> set (map fst (output_schema s)). map_of outp key \<noteq> None))
       \<and> (\<exists>st'. node_function ext wfl s st = Inr st'
            \<and> map_of (step_outputs st') (step_id s) = Some (PDict outp)
            \<and> invoke_nodes ext wfl (s # ss) st = invoke_nodes ext wfl ss st'
            \<and> printed st' = printed st @
                (case find (\<lambda>k. map_of outp k = None) (map fst (output_schema s)) of
                   None \<Rightarrow> []
                 | Some k \<Rightarrow> [''Warning: Missing expected output key: '' @ k]))"
proof
  show "fst (validate_output (output_schema s) outp) \<longleftrightarrow>
            (\<forall>key \<in> set (map fst (output_schema s)). map_of outp key \<noteq> None)"
    by (rule validate_output_fst)
next
  show "\<exists>st'. node_function ext wfl s st = Inr st'
            \<and> map_of (step_outputs st') (step_id s) = Some (PDict outp)
            \<and> invoke_nodes ext wfl (s # ss) st = invoke_nodes ext wfl ss st'
            \<and> printed st' = printed st @
                (case find (\<lambda>k. map_of outp k = None) (map fst (output_schema s)) of
                   None \<Rightarrow> []
                 | Some k \<Rightarrow> [''Warning: Missing expected output key: '' @ k])"
    unfolding invoke_nodes.simps node_function_success [OF assms]
    by (simp add: map_of_dict_set validate_output_snd)
qed

theorem validation_never_blocks_recording_witness:
  "node_function demo_externals (demo_workflow three_steps)
     (demo_step ''s1'' [(''x'', PInt 1)] [(''y'', PDict []), (''z'', PDict [])])
     (initial_state (demo_workflow three_steps))
   = Inr ((initial_state (demo_workflow three_steps))
        \<lparr>step_outputs := [(''s1'', PDict [(''y'', PDict [(''x'', PInt 1)])])],
         current_step := ''s1'',
         printed := [''Warning: Missing expected output key: z'']\<rparr>)
 \<and> validate_output [(''y'', PDict []), (''z'', PDict [])] [(''y'', PDict [(''x'', PInt 1)])]
     = (False, [''Warning: Missing expected output key: z''])"
  using validation_never_blocks_recording
    [where ext = demo_externals
       and s = "demo_step ''s1'' [(''x'', PInt 1)] [(''y'', PDict []), (''z'', PDict [])]"
       and tools_config = "[]" and wfl = "demo_workflow three_steps"
       and ins = "PDict [(''x'', PInt 1)]" and outp = "[(''y'', PDict [(''x'', PInt 1)])]"
       and st = "initial_state (demo_workflow three_steps)" and ss = "[]"]
  by (simp add: demo_defs node_function_def agent_execute_def)

end
